theory Spec2Isabelle
  imports Complex_Main "HOL-Library.Multiset"
begin

section \<open>Data model (api/models.py)\<close>

text \<open>
  Primary keys are UUIDs; only their identity matters, so they are natural numbers here.
  Two \<open>GroupMember\<close> objects are equal in Python exactly when their primary keys are.

  \<open>DecimalField\<close> values are Python \<open>Decimal\<close>s: finite decimal fractions, modelled by
  their exact rational value. Python computes with \<open>Decimal\<close>s in a context of 28
  significant digits; sums, differences and comparisons of the money columns (ten digits,
  two of them decimal places) are exact there. The context's precision is not modelled:
  the quotient of a division is the exact rational.
\<close>

type_synonym uuid = nat
type_synonym Decimal = rat

text \<open>\<open>ReceiptItemSplit\<close>: \<open>group_member\<close> owes \<open>amount\<close> to \<open>paid_by\<close> for \<open>receipt_item\<close>.\<close>

datatype ReceiptItemSplit =
  ReceiptItemSplit (receipt_item: uuid) (group_member: uuid) (amount: Decimal) (paid_by: uuid)

text \<open>
  \<open>Debt\<close>: \<open>debtor\<close> owes \<open>creditor\<close> the net \<open>amount\<close> in \<open>group\<close>. The surrogate key
  \<open>id\<close> and the timestamp \<open>last_updated\<close> carry no behaviour; a row is identified by
  \<open>(group, debtor, creditor)\<close>, which \<open>unique_together\<close> declares unique.
\<close>

record Debt =
  group :: uuid
  debtor :: uuid
  creditor :: uuid
  amount :: Decimal

text \<open>The table \<open>Debt.objects\<close> is the list of its rows.\<close>

type_synonym debts = "Debt list"

definition key :: "Debt \<Rightarrow> uuid \<times> uuid \<times> uuid" where
  "key r = (group r, debtor r, creditor r)"

text \<open>\<open>Debt.objects.filter(group=g, debtor=d, creditor=c).first()\<close>\<close>

definition filter_first :: "uuid \<Rightarrow> uuid \<Rightarrow> uuid \<Rightarrow> debts \<Rightarrow> Debt option" where
  "filter_first g d c t = find (\<lambda>r. key r = (g, d, c)) t"

text \<open>\<open>Debt.objects.create(...)\<close>\<close>

definition objects_create :: "Debt \<Rightarrow> debts \<Rightarrow> debts" where
  "objects_create r t = t @ [r]"

text \<open>\<open>debt.save()\<close> writes the fields of the object back to its row.\<close>

definition save :: "Debt \<Rightarrow> debts \<Rightarrow> debts" where
  "save r t = map (\<lambda>x. if key x = key r then r else x) t"

text \<open>\<open>debt.delete()\<close> removes the row of the object.\<close>

definition delete :: "Debt \<Rightarrow> debts \<Rightarrow> debts" where
  "delete r t = filter (\<lambda>x. key x \<noteq> key r) t"

text \<open>The exceptions that the modelled code can raise.\<close>

datatype exn = InvalidOperation | TypeError | ValueError | Http404

section \<open>Decimal rounding\<close>

text \<open>
  \<open>Decimal.quantize(Decimal('0.01'), rounding=...)\<close> rounds to two decimal places.
  \<open>ROUND_HALF_UP\<close> rounds to the nearest value, ties away from zero; \<open>ROUND_HALF_EVEN\<close>
  rounds to the nearest value, ties to the even last digit. Without a \<open>rounding\<close>
  argument \<open>quantize\<close> takes the rounding of the context, which is \<open>ROUND_HALF_EVEN\<close> by
  default; nothing in the repository changes the context.
\<close>

datatype rounding = ROUND_HALF_UP | ROUND_HALF_EVEN

definition round_half_up :: "rat \<Rightarrow> int" where
  "round_half_up x = (if x < 0 then - \<lfloor>- x + 1 / 2\<rfloor> else \<lfloor>x + 1 / 2\<rfloor>)"

definition round_half_even :: "rat \<Rightarrow> int" where
  "round_half_even x =
     (let f = \<lfloor>\<bar>x\<bar>\<rfloor>;
          d = \<bar>x\<bar> - of_int f;
          m = (if d < 1 / 2 then f else if 1 / 2 < d then f + 1
               else if even f then f else f + 1)
      in if x < 0 then - m else m)"

definition context_rounding :: rounding where
  "context_rounding = ROUND_HALF_EVEN"

definition quantize :: "rounding \<Rightarrow> Decimal \<Rightarrow> Decimal" where
  "quantize r x =
     of_int (case r of ROUND_HALF_UP \<Rightarrow> round_half_up (x * 100)
                     | ROUND_HALF_EVEN \<Rightarrow> round_half_even (x * 100)) / 100"

section \<open>Splitting a receipt item (api/utils.py, create_receipt_item_and_splits)\<close>

text \<open>
  The fields of \<open>item_data\<close> that decide the splits. \<open>actual_price\<close> is the value of
  \<open>Decimal(str(item_data.get('actual_price', ...)))\<close>; \<open>split_user_id\<close> is \<open>None\<close> when the
  request has none.
\<close>

record item_data =
  actual_price :: Decimal
  split_method :: string
  paid_by_id :: uuid
  split_user_id :: "uuid option"

text \<open>
  \<open>get_object_or_404(GroupMember, id=..., group=group)\<close>: \<open>group_members\<close> holds the
  members of the group, so the lookup succeeds exactly for an id among them.
\<close>

definition get_object_or_404 :: "uuid list \<Rightarrow> uuid option \<Rightarrow> exn + uuid" where
  "get_object_or_404 group_members i =
     (case i of
        None \<Rightarrow> Inl Http404
      | Some m \<Rightarrow> if m \<in> set group_members then Inr m else Inl Http404)"

text \<open>
  The part of \<open>create_receipt_item_and_splits\<close> after the \<open>ReceiptItem\<close> is stored, whose
  key is the argument \<open>receipt_item'\<close>. The result is the list of \<open>ReceiptItemSplit\<close> rows
  created, in the order of their creation, or the exception raised.
\<close>

definition create_receipt_item_and_splits ::
  "uuid \<Rightarrow> item_data \<Rightarrow> uuid list \<Rightarrow> exn + ReceiptItemSplit list" where
  "create_receipt_item_and_splits receipt_item' item group_members =
     (case get_object_or_404 group_members (Some (paid_by_id item)) of
        Inl e \<Rightarrow> Inl e
      | Inr paid_by' \<Rightarrow>
          if split_method item = ''EVENLY'' then
            (let num_members = length group_members
             in if num_members = 0 then Inl ValueError
                else
                  (let split_amount = actual_price item / of_nat num_members
                   in Inr (map (\<lambda>member.
                             ReceiptItemSplit receipt_item' member
                               (quantize context_rounding split_amount) paid_by')
                           group_members)))
          else if split_method item = ''BY_USER'' then
            (case get_object_or_404 group_members (split_user_id item) of
               Inl e \<Rightarrow> Inl e
             | Inr split_user \<Rightarrow>
                 Inr [ReceiptItemSplit receipt_item' split_user (actual_price item) paid_by'])
          else Inr [])"

section \<open>Folding splits into the ledger (api/utils.py, update_debts)\<close>

text \<open>The body of the loop \<open>for split in splits\<close>.\<close>

definition update_debt :: "ReceiptItemSplit \<Rightarrow> uuid \<Rightarrow> debts \<Rightarrow> debts" where
  "update_debt split g t =
    (let debtor' = group_member split;
         creditor' = paid_by split;
         amount' = ReceiptItemSplit.amount split
     in if debtor' = creditor' then t
        else
          (case filter_first g debtor' creditor' t of
             Some debt \<Rightarrow>
               (let debt = debt\<lparr>amount := amount debt + amount'\<rparr>
                in if amount debt = 0 then delete debt t else save debt t)
           | None \<Rightarrow>
               (case filter_first g creditor' debtor' t of
                  Some reverse_debt \<Rightarrow>
                    (let reverse_debt = reverse_debt\<lparr>amount := amount reverse_debt - amount'\<rparr>
                     in if amount reverse_debt = 0 then delete reverse_debt t
                        else if amount reverse_debt < 0 then
                          delete reverse_debt
                            (objects_create
                               \<lparr>group = g, debtor = debtor', creditor = creditor',
                                amount = - amount reverse_debt\<rparr> t)
                        else save reverse_debt t)
                | None \<Rightarrow>
                    objects_create
                      \<lparr>group = g, debtor = debtor', creditor = creditor', amount = amount'\<rparr> t)))"

fun update_debts :: "ReceiptItemSplit list \<Rightarrow> uuid \<Rightarrow> debts \<Rightarrow> debts" where
  "update_debts [] g t = t"
| "update_debts (split # splits) g t = update_debts splits g (update_debt split g t)"

section \<open>Paying a debt (api/utils.py, validate_payment_amount; api/views.py, PayDebtView)\<close>

text \<open>
  \<open>payment_amount\<close> is \<open>request.data.get('amount')\<close>, any JSON value or \<open>None\<close>. The code
  reads it with \<open>Decimal(str(payment_amount))\<close>. \<open>Numeric v\<close> is a value whose \<open>str\<close> is
  the literal of the finite decimal \<open>v\<close>; \<open>NonNumeric\<close> is every other value (\<open>None\<close>,
  text that is no number, a list, \<open>NaN\<close>, \<open>Infinity\<close>). For those the constructor, or
  the \<open>quantize\<close> or comparison after it, raises \<open>decimal.InvalidOperation\<close>, a subclass
  of \<open>ArithmeticError\<close>: it is neither a \<open>TypeError\<close> nor a \<open>ValueError\<close>.
\<close>

datatype request_value = Numeric Decimal | NonNumeric

definition Decimal_str :: "request_value \<Rightarrow> exn + Decimal" where
  "Decimal_str x = (case x of Numeric v \<Rightarrow> Inr v | NonNumeric \<Rightarrow> Inl InvalidOperation)"

text \<open>
  The pair \<open>(is_valid, result)\<close> that \<open>validate_payment_amount\<close> returns:
  \<open>(False, message)\<close> or \<open>(True, payment_amount)\<close>.
\<close>

datatype validation = Invalid string | Valid Decimal

text \<open>\<open>try: ... except (TypeError, ValueError): return False, "Invalid payment amount."\<close>\<close>

definition except_TypeError_ValueError :: "exn + validation \<Rightarrow> exn + validation" where
  "except_TypeError_ValueError body =
     (case body of
        Inl e \<Rightarrow>
          if e = TypeError \<or> e = ValueError then Inr (Invalid ''Invalid payment amount.'')
          else Inl e
      | Inr v \<Rightarrow> Inr v)"

definition validate_payment_amount :: "request_value \<Rightarrow> Decimal \<Rightarrow> exn + validation" where
  "validate_payment_amount payment_amount debt_amount =
     except_TypeError_ValueError
       (case Decimal_str payment_amount of
          Inl e \<Rightarrow> Inl e
        | Inr v \<Rightarrow>
            (let payment_amount = quantize ROUND_HALF_UP v
             in if payment_amount \<le> 0 then
                  Inr (Invalid ''Payment amount must be greater than 0.'')
                else if payment_amount > debt_amount then
                  Inr (Invalid ''Payment amount cannot exceed the debt amount.'')
                else Inr (Valid payment_amount)))"

text \<open>The body and the status of a \<open>Response\<close>.\<close>

datatype body = Error string | Message string | DebtData Debt

datatype response = Response body nat

text \<open>
  \<open>PayDebtView.post\<close> for an existing group. \<open>user_member\<close> is the requester's member of
  the group, \<open>None\<close> when the requester is no member; \<open>debt_id\<close> names the row by its debtor
  and creditor. The result is the response with the table afterwards, or the exception
  that leaves the view (\<open>Http404\<close>, or one raised by \<open>validate_payment_amount\<close>, which is
  called outside the \<open>try\<close>).
\<close>

definition post ::
  "uuid option \<Rightarrow> request_value \<Rightarrow> uuid \<Rightarrow> uuid \<times> uuid \<Rightarrow> debts \<Rightarrow> exn + response \<times> debts" where
  "post user_member request_amount g debt_id t =
     (case user_member of
        None \<Rightarrow> Inr (Response (Error ''You are not a member of this group.'') 403, t)
      | Some user_member \<Rightarrow>
          (case filter_first g (fst debt_id) (snd debt_id) t of
             None \<Rightarrow> Inl Http404
           | Some debt \<Rightarrow>
               if user_member \<notin> set [debtor debt, creditor debt] then
                 Inr (Response (Error ''You are not involved in this debt.'') 403, t)
               else
                 (case validate_payment_amount request_amount (amount debt) of
                    Inl e \<Rightarrow> Inl e
                  | Inr (Invalid result) \<Rightarrow> Inr (Response (Error result) 400, t)
                  | Inr (Valid payment_amount) \<Rightarrow>
                      (let debt = debt\<lparr>amount := amount debt - payment_amount\<rparr>
                       in if amount debt \<le> 0 then
                            Inr (Response (Message ''Debt fully paid and deleted.'') 200,
                                 delete debt t)
                          else Inr (Response (DebtData debt) 200, save debt t)))))"

section \<open>Reading the ledger\<close>

text \<open>The amount of the edge \<open>debtor \<rightarrow> creditor\<close> of a group, when the edge exists.\<close>

definition edge :: "debts \<Rightarrow> uuid \<Rightarrow> uuid \<Rightarrow> uuid \<Rightarrow> Decimal option" where
  "edge t g d c = map_option amount (filter_first g d c t)"

text \<open>A row lies on the pair \<open>{a, b}\<close> of a group, in either direction.\<close>

definition on_pair :: "uuid \<Rightarrow> uuid \<Rightarrow> uuid \<Rightarrow> Debt \<Rightarrow> bool" where
  "on_pair g a b r \<longleftrightarrow>
     group r = g \<and> (debtor r = a \<and> creditor r = b \<or> debtor r = b \<and> creditor r = a)"

text \<open>What \<open>a\<close> owes \<open>b\<close> (nothing without an edge), and the signed net balance of the pair.\<close>

definition owes :: "debts \<Rightarrow> uuid \<Rightarrow> uuid \<Rightarrow> uuid \<Rightarrow> Decimal" where
  "owes t g a b = (case edge t g a b of None \<Rightarrow> 0 | Some x \<Rightarrow> x)"

definition net_balance :: "debts \<Rightarrow> uuid \<Rightarrow> uuid \<Rightarrow> uuid \<Rightarrow> Decimal" where
  "net_balance t g a b = owes t g a b - owes t g b a"

text \<open>The total of the obligations of a batch in which \<open>a\<close> owes \<open>b\<close>.\<close>

definition obligations :: "ReceiptItemSplit list \<Rightarrow> uuid \<Rightarrow> uuid \<Rightarrow> Decimal" where
  "obligations splits a b =
     sum_list (map ReceiptItemSplit.amount
       (filter (\<lambda>s. group_member s = a \<and> paid_by s = b) splits))"



text \<open>
  The invariant of the ledger: the key \<open>(group, debtor, creditor)\<close> is unique, no pair of
  two members has edges in both directions, and every amount is strictly positive.
\<close>

definition ledger_invariant :: "debts \<Rightarrow> bool" where
  "ledger_invariant t \<longleftrightarrow>
     distinct (map key t) \<and>
     (\<forall>r \<in> set t. 0 < amount r \<and>
        (debtor r \<noteq> creditor r \<longrightarrow> edge t (group r) (creditor r) (debtor r) = None))"

text \<open>
  A ledger is netted when the edge between two different members reads off the signed net
  balance of the pair: it exists exactly when the balance is positive, with the balance
  as its amount.
\<close>

definition netted :: "debts \<Rightarrow> bool" where
  "netted t \<longleftrightarrow>
     (\<forall>g d c. d \<noteq> c \<longrightarrow>
        edge t g d c =
          (if 0 < net_balance t g d c then Some (net_balance t g d c) else None))"

text \<open>One fold step, read through \<open>edge\<close>: what happens to the pair of opposite edges.\<close>

definition fold_edge ::
  "Decimal option \<Rightarrow> Decimal option \<Rightarrow> Decimal \<Rightarrow> Decimal option \<times> Decimal option" where
  "fold_edge fwd bwd a =
     (case fwd of
        Some x \<Rightarrow> (if x + a = 0 then None else Some (x + a), bwd)
      | None \<Rightarrow>
          (case bwd of
             Some y \<Rightarrow>
               if y - a = 0 then (None, None)
               else if y - a < 0 then (Some (- (y - a)), None)
               else (None, Some (y - a))
           | None \<Rightarrow> (Some a, None)))"

section \<open>Properties of the table operations\<close>

lemma filter_first_key: "filter_first g d c t = Some r \<Longrightarrow> key r = (g, d, c)"
  by (auto simp: filter_first_def find_Some_iff)

lemma key_amount_update [simp]: "key (r\<lparr>amount := x\<rparr>) = key r"
  by (simp add: key_def)

lemma delete_amount_update [simp]: "delete (r\<lparr>amount := x\<rparr>) t = delete r t"
  by (simp add: delete_def)

lemma filter_first_create:
  "filter_first g d c (objects_create r t) =
     (case filter_first g d c t of
        Some x \<Rightarrow> Some x
      | None \<Rightarrow> if key r = (g, d, c) then Some r else None)"
  unfolding filter_first_def objects_create_def
  by (induction t) simp_all

lemma filter_first_delete:
  "filter_first g d c (delete r t) =
     (if key r = (g, d, c) then None else filter_first g d c t)"
  unfolding filter_first_def delete_def
  by (induction t) auto

lemma filter_first_save:
  "filter_first g d c (save r t) =
     (if key r = (g, d, c) then map_option (\<lambda>_. r) (filter_first g d c t)
      else filter_first g d c t)"
  unfolding filter_first_def save_def
  by (induction t) auto

lemma edge_create:
  "edge (objects_create r t) g d c =
     (case edge t g d c of
        Some x \<Rightarrow> Some x
      | None \<Rightarrow> if key r = (g, d, c) then Some (amount r) else None)"
  by (simp add: edge_def filter_first_create split: option.splits)

lemma edge_delete:
  "edge (delete r t) g d c = (if key r = (g, d, c) then None else edge t g d c)"
  by (simp add: edge_def filter_first_delete)

lemma edge_save:
  "edge (save r t) g d c =
     (if key r = (g, d, c) then map_option (\<lambda>_. amount r) (edge t g d c)
      else edge t g d c)"
  by (simp add: edge_def filter_first_save option.map_comp comp_def)

text \<open>The three branches of one fold step.\<close>

lemma update_debt_same:
  assumes "d \<noteq> c" and "filter_first g d c t = Some r"
  shows "update_debt (ReceiptItemSplit ri d a c) g t =
           (if amount r + a = 0 then delete r t else save (r\<lparr>amount := amount r + a\<rparr>) t)"
  using assms by (simp add: update_debt_def)

lemma update_debt_reverse:
  assumes "d \<noteq> c" and "filter_first g d c t = None" and "filter_first g c d t = Some r"
  shows "update_debt (ReceiptItemSplit ri d a c) g t =
           (if amount r - a = 0 then delete r t
            else if amount r - a < 0 then
              delete r (objects_create
                \<lparr>group = g, debtor = d, creditor = c, amount = - (amount r - a)\<rparr> t)
            else save (r\<lparr>amount := amount r - a\<rparr>) t)"
  using assms by (simp add: update_debt_def)

lemma update_debt_new:
  assumes "d \<noteq> c" and "filter_first g d c t = None" and "filter_first g c d t = None"
  shows "update_debt (ReceiptItemSplit ri d a c) g t =
           objects_create \<lparr>group = g, debtor = d, creditor = c, amount = a\<rparr> t"
  using assms by (simp add: update_debt_def)


section \<open>Self-debt\<close>

lemma update_debt_self: "update_debt (ReceiptItemSplit ri m a m) g t = t"
  by (simp add: update_debt_def)

text \<open>
  C7. Folding an obligation whose debtor is its creditor leaves the ledger as it is: no row
  is created, changed or deleted. This holds for one such obligation and for any batch of
  them, on every ledger.
\<close>

theorem self_debt_noop:
  "\<forall>s \<in> set splits. group_member s = paid_by s \<Longrightarrow> update_debts splits g t = t"
proof (induction splits arbitrary: t)
  case Nil
  show ?case by simp
next
  case (Cons s splits)
  have "update_debt s g t = t"
    using Cons.prems by (cases s) (simp add: update_debt_def)
  with Cons show ?case by simp
qed

theorem self_debt_noop_witness:
  "update_debts [ReceiptItemSplit 1 7 (10 :: Decimal) 7, ReceiptItemSplit 2 8 3 8] 1
     [\<lparr>group = 1, debtor = 7, creditor = 8, amount = 20\<rparr>]
   = [\<lparr>group = 1, debtor = 7, creditor = 8, amount = 20\<rparr>]"
  using self_debt_noop [of "[ReceiptItemSplit 1 7 10 7, ReceiptItemSplit 2 8 3 8]" 1
      "[\<lparr>group = 1, debtor = 7, creditor = 8, amount = 20\<rparr>]"]
  by simp

lemma edge_update_debt_fwd:
  assumes dc: "d \<noteq> c"
  shows "edge (update_debt (ReceiptItemSplit ri d a c) g t) g d c =
           fst (fold_edge (edge t g d c) (edge t g c d) a)"
proof (cases "filter_first g d c t")
  case (Some r)
  then have k: "key r = (g, d, c)" by (rule filter_first_key)
  have e: "edge t g d c = Some (amount r)" using Some by (simp add: edge_def)
  show ?thesis
    using k e by (simp add: update_debt_same [OF dc Some] edge_delete edge_save fold_edge_def)
next
  case None
  then have e: "edge t g d c = None" by (simp add: edge_def)
  show ?thesis
  proof (cases "filter_first g c d t")
    case (Some r)
    then have k: "key r = (g, c, d)" by (rule filter_first_key)
    have e': "edge t g c d = Some (amount r)" using Some by (simp add: edge_def)
    show ?thesis
      using dc k e e'
      by (simp add: update_debt_reverse [OF dc None Some] edge_delete edge_save edge_create
          fold_edge_def key_def)
  next
    case None': None
    then have e': "edge t g c d = None" by (simp add: edge_def)
    show ?thesis
      using e e'
      by (simp add: update_debt_new [OF dc None None'] edge_create fold_edge_def key_def)
  qed
qed

lemma edge_update_debt_bwd:
  assumes dc: "d \<noteq> c"
  shows "edge (update_debt (ReceiptItemSplit ri d a c) g t) g c d =
           snd (fold_edge (edge t g d c) (edge t g c d) a)"
proof (cases "filter_first g d c t")
  case (Some r)
  then have k: "key r = (g, d, c)" by (rule filter_first_key)
  have e: "edge t g d c = Some (amount r)" using Some by (simp add: edge_def)
  show ?thesis
    using dc k e
    by (simp add: update_debt_same [OF dc Some] edge_delete edge_save fold_edge_def)
next
  case None
  then have e: "edge t g d c = None" by (simp add: edge_def)
  show ?thesis
  proof (cases "filter_first g c d t")
    case (Some r)
    then have k: "key r = (g, c, d)" by (rule filter_first_key)
    have e': "edge t g c d = Some (amount r)" using Some by (simp add: edge_def)
    show ?thesis
      using dc k e e'
      by (simp add: update_debt_reverse [OF dc None Some] edge_delete edge_save edge_create
          fold_edge_def key_def)
  next
    case None': None
    then have e': "edge t g c d = None" by (simp add: edge_def)
    show ?thesis
      using dc e e'
      by (simp add: update_debt_new [OF dc None None'] edge_create fold_edge_def key_def)
  qed
qed

lemma edge_update_debt_other:
  assumes o1: "(g', d', c') \<noteq> (g, d, c)" and o2: "(g', d', c') \<noteq> (g, c, d)"
  shows "edge (update_debt (ReceiptItemSplit ri d a c) g t) g' d' c' = edge t g' d' c'"
proof (cases "d = c")
  case True
  then show ?thesis by (simp add: update_debt_self)
next
  case dc: False
  show ?thesis
  proof (cases "filter_first g d c t")
    case (Some r)
    then have k: "key r \<noteq> (g', d', c')" using o1 by (auto dest: filter_first_key)
    show ?thesis
      using k by (simp add: update_debt_same [OF dc Some] edge_delete edge_save)
  next
    case None
    show ?thesis
    proof (cases "filter_first g c d t")
      case (Some r)
      then have k: "key r \<noteq> (g', d', c')" using o2 by (auto dest: filter_first_key)
      have k': "key \<lparr>group = g, debtor = d, creditor = c, amount = x\<rparr> \<noteq> (g', d', c')" for x
        using o1 by (auto simp: key_def)
      show ?thesis
        using k k'
        by (simp add: update_debt_reverse [OF dc None Some] edge_delete edge_save edge_create
            split: option.splits)
    next
      case None': None
      have k': "key \<lparr>group = g, debtor = d, creditor = c, amount = a\<rparr> \<noteq> (g', d', c')"
        using o1 by (auto simp: key_def)
      show ?thesis
        using k'
        by (simp add: update_debt_new [OF dc None None'] edge_create split: option.splits)
    qed
  qed
qed

section \<open>One obligation\<close>




section \<open>Frame\<close>

lemma on_pair_key: "key x = key r \<Longrightarrow> on_pair g a b x = on_pair g a b r"
  by (auto simp: key_def on_pair_def)

lemma frame_create:
  "on_pair g a b r \<Longrightarrow>
   filter (\<lambda>x. \<not> on_pair g a b x) (objects_create r t) = filter (\<lambda>x. \<not> on_pair g a b x) t"
  by (simp add: objects_create_def)

lemma frame_delete:
  assumes "on_pair g a b r"
  shows "filter (\<lambda>x. \<not> on_pair g a b x) (delete r t) = filter (\<lambda>x. \<not> on_pair g a b x) t"
proof -
  have "\<not> on_pair g a b x \<Longrightarrow> key x \<noteq> key r" for x
    using assms on_pair_key by blast
  then show ?thesis
    unfolding delete_def by (induction t) auto
qed

lemma frame_save:
  assumes "on_pair g a b r"
  shows "filter (\<lambda>x. \<not> on_pair g a b x) (save r t) = filter (\<lambda>x. \<not> on_pair g a b x) t"
proof -
  have "key x = key r \<Longrightarrow> on_pair g a b x" for x
    using assms on_pair_key by blast
  then show ?thesis
    using assms unfolding save_def by (induction t) auto
qed

lemma on_pair_found:
  "filter_first g d c t = Some r \<Longrightarrow> on_pair g d c (r\<lparr>amount := x\<rparr>) \<and> on_pair g c d (r\<lparr>amount := x\<rparr>)"
  by (auto dest!: filter_first_key simp: key_def on_pair_def)

lemma frame_update_debt:
  "filter (\<lambda>x. \<not> on_pair g d c x) (update_debt (ReceiptItemSplit ri d a c) g t)
   = filter (\<lambda>x. \<not> on_pair g d c x) t"
proof (cases "d = c")
  case True
  then show ?thesis by (simp add: update_debt_self)
next
  case dc: False
  show ?thesis
  proof (cases "filter_first g d c t")
    case (Some r)
    have "on_pair g d c (r\<lparr>amount := x\<rparr>)" for x
      using on_pair_found [OF Some] by simp
    from this [of "amount r"] this [of "amount r + a"] show ?thesis
      by (simp add: update_debt_same [OF dc Some] frame_delete frame_save)
  next
    case None
    show ?thesis
    proof (cases "filter_first g c d t")
      case (Some r)
      have "on_pair g d c (r\<lparr>amount := x\<rparr>)" for x
        using on_pair_found [OF Some] by simp
      from this [of "amount r"] this [of "amount r - a"]
      have "on_pair g d c r" and "on_pair g d c (r\<lparr>amount := amount r - a\<rparr>)"
        by simp_all
      moreover have "on_pair g d c \<lparr>group = g, debtor = d, creditor = c, amount = x\<rparr>" for x
        by (simp add: on_pair_def)
      ultimately show ?thesis
        by (simp add: update_debt_reverse [OF dc None Some] frame_delete frame_save
            frame_create)
    next
      case None': None
      have "on_pair g d c \<lparr>group = g, debtor = d, creditor = c, amount = a\<rparr>"
        by (simp add: on_pair_def)
      then show ?thesis
        by (simp add: update_debt_new [OF dc None None'] frame_create)
    qed
  qed
qed

text \<open>
  C10. Folding one obligation of a group touches only the rows of that group on the pair
  of its debtor and creditor, in either direction: the rows of every other pair and of
  every other group are the same rows afterwards, and every edge other than the two of
  the pair reads as before.
\<close>

theorem fold_frame:
  "filter (\<lambda>r. \<not> on_pair g (group_member s) (paid_by s) r) (update_debts [s] g t)
     = filter (\<lambda>r. \<not> on_pair g (group_member s) (paid_by s) r) t \<and>
   (\<forall>g' d' c'. (g', d', c') \<noteq> (g, group_member s, paid_by s) \<and>
                (g', d', c') \<noteq> (g, paid_by s, group_member s) \<longrightarrow>
      edge (update_debts [s] g t) g' d' c' = edge t g' d' c')"
proof (cases s)
  case (ReceiptItemSplit ri d a c)
  show ?thesis
    unfolding ReceiptItemSplit
    by (simp add: frame_update_debt edge_update_debt_other)
qed

theorem fold_frame_witness:
  "filter (\<lambda>r. \<not> on_pair 5 2 1 r)
     (update_debts [ReceiptItemSplit 9 2 35 1] 5
        [\<lparr>group = 5, debtor = 1, creditor = 3, amount = 7\<rparr>,
         \<lparr>group = 5, debtor = 1, creditor = 2, amount = 20\<rparr>,
         \<lparr>group = 6, debtor = 1, creditor = 2, amount = 4\<rparr>])
   = [\<lparr>group = 5, debtor = 1, creditor = 3, amount = 7\<rparr>,
      \<lparr>group = 6, debtor = 1, creditor = 2, amount = 4\<rparr>]"
  using fold_frame [of 5 "ReceiptItemSplit 9 2 35 1"
      "[\<lparr>group = 5, debtor = 1, creditor = 3, amount = 7\<rparr>,
        \<lparr>group = 5, debtor = 1, creditor = 2, amount = 20\<rparr>,
        \<lparr>group = 6, debtor = 1, creditor = 2, amount = 4\<rparr>]"]
  by (simp add: on_pair_def)

section \<open>Conservation\<close>

lemma net_fold_edge:
  "(case fst (fold_edge f b a) of None \<Rightarrow> 0 | Some x \<Rightarrow> x)
   - (case snd (fold_edge f b a) of None \<Rightarrow> 0 | Some x \<Rightarrow> x)
   = (case f of None \<Rightarrow> 0 | Some x \<Rightarrow> x) - (case b of None \<Rightarrow> 0 | Some x \<Rightarrow> x) + a"
  by (simp add: fold_edge_def split: option.splits)

lemma net_balance_self: "net_balance t g a a = 0"
  by (simp add: net_balance_def)

lemma net_balance_flip: "net_balance t g b a = - net_balance t g a b"
  by (simp add: net_balance_def)

lemma net_update_debt_pair:
  assumes dc: "d \<noteq> c"
  shows "net_balance (update_debt (ReceiptItemSplit ri d a c) g t) g d c = net_balance t g d c + a"
  unfolding net_balance_def owes_def
  by (simp only: edge_update_debt_fwd [OF dc] edge_update_debt_bwd [OF dc] net_fold_edge)

lemma net_update_debt_other:
  assumes "(a, b) \<noteq> (d, c)" and "(a, b) \<noteq> (c, d)"
  shows "net_balance (update_debt (ReceiptItemSplit ri d x c) g t) g a b = net_balance t g a b"
proof -
  have "edge (update_debt (ReceiptItemSplit ri d x c) g t) g a b = edge t g a b"
    using assms by (intro edge_update_debt_other) auto
  moreover have "edge (update_debt (ReceiptItemSplit ri d x c) g t) g b a = edge t g b a"
    using assms by (intro edge_update_debt_other) auto
  ultimately show ?thesis by (simp add: net_balance_def owes_def)
qed

lemma obligations_single:
  "obligations [ReceiptItemSplit ri d x c] a b = (if d = a \<and> c = b then x else 0)"
  by (simp add: obligations_def)

lemma net_update_debt:
  "net_balance (update_debt s g t) g a b =
     net_balance t g a b + obligations [s] a b - obligations [s] b a"
proof (cases s)
  case (ReceiptItemSplit ri d x c)
  show ?thesis
  proof (cases "d = c")
    case True
    have "obligations [ReceiptItemSplit ri d x c] a b = obligations [ReceiptItemSplit ri d x c] b a"
      using True by (simp add: obligations_single)
    then show ?thesis
      unfolding ReceiptItemSplit using True by (simp add: update_debt_self)
  next
    case dc: False
    consider "a = d \<and> b = c" | "a = c \<and> b = d" | "(a, b) \<noteq> (d, c)" "(a, b) \<noteq> (c, d)"
      by blast
    then show ?thesis
    proof cases
      case 1
      have "obligations [ReceiptItemSplit ri d x c] d c = x"
        and "obligations [ReceiptItemSplit ri d x c] c d = 0"
        using dc by (simp_all add: obligations_single)
      then show ?thesis
        unfolding ReceiptItemSplit using 1 net_update_debt_pair [OF dc, of ri x g t] by simp
    next
      case 2
      have n: "net_balance (update_debt (ReceiptItemSplit ri d x c) g t) g c d
            = net_balance t g c d - x"
        using net_update_debt_pair [OF dc, of ri x g t]
        by (simp add: net_balance_flip [of _ g c d])
      have "obligations [ReceiptItemSplit ri d x c] d c = x"
        and "obligations [ReceiptItemSplit ri d x c] c d = 0"
        using dc by (simp_all add: obligations_single)
      then show ?thesis
        unfolding ReceiptItemSplit using 2 n by simp
    next
      case 3
      have "obligations [ReceiptItemSplit ri d x c] a b = 0"
        using 3(1) by (auto simp: obligations_single)
      moreover have "obligations [ReceiptItemSplit ri d x c] b a = 0"
        using 3(2) by (auto simp: obligations_single)
      ultimately show ?thesis
        unfolding ReceiptItemSplit using net_update_debt_other [OF 3, of ri x g t] by simp
    qed
  qed
qed

lemma obligations_Cons:
  "obligations (s # ss) a b = obligations [s] a b + obligations ss a b"
  by (simp add: obligations_def)

lemma net_update_debts:
  "net_balance (update_debts ss g t) g a b =
     net_balance t g a b + obligations ss a b - obligations ss b a"
proof (induction ss arbitrary: t)
  case Nil
  show ?case by (simp add: obligations_def)
next
  case (Cons s ss)
  have "net_balance (update_debts (s # ss) g t) g a b
        = net_balance (update_debt s g t) g a b + obligations ss a b - obligations ss b a"
    by (simp add: Cons.IH)
  also have "\<dots> = net_balance t g a b + obligations (s # ss) a b - obligations (s # ss) b a"
    by (simp add: net_update_debt obligations_Cons [of s ss])
  finally show ?case .
qed















section \<open>Rounding\<close>










section \<open>Splitting evenly\<close>

lemma evenly_splits:
  assumes "split_method item = ''EVENLY''" and "paid_by_id item \<in> set group_members"
  shows "create_receipt_item_and_splits ri item group_members =
           Inr (map (\<lambda>member. ReceiptItemSplit ri member
                  (quantize context_rounding
                     (actual_price item / of_nat (length group_members)))
                  (paid_by_id item)) group_members)"
proof -
  have "group_members \<noteq> []" using assms(2) by auto
  then show ?thesis
    using assms by (simp add: create_receipt_item_and_splits_def get_object_or_404_def)
qed







section \<open>End to end\<close>

lemma quantize_30_3: "quantize context_rounding 10 = 10"
  by code_simp

lemma mset_three:
  assumes "mset ss = mset [x, y, z]"
  shows "ss \<in> {[x, y, z], [x, z, y], [y, x, z], [y, z, x], [z, x, y], [z, y, x]}"
proof -
  have "length ss = 3" using mset_eq_length [OF assms] by simp
  then obtain p q r where ss: "ss = [p, q, r]"
    by (auto simp: numeral_3_eq_3 length_Suc_conv)
  show ?thesis
    using assms unfolding ss
    by (auto simp: add_eq_conv_ex)
qed


text \<open>
  C9. A group with the three members \<open>a\<close>, \<open>b\<close>, \<open>c\<close>, an empty ledger, and one item of
  30.00 paid by \<open>a\<close> and split \<open>EVENLY\<close>: the splits created are "\<open>a\<close> owes \<open>a\<close> 10.00",
  "\<open>b\<close> owes \<open>a\<close> 10.00" and "\<open>c\<close> owes \<open>a\<close> 10.00", and folding them leaves exactly the
  two edges "\<open>b\<close> owes \<open>a\<close> 10.00" and "\<open>c\<close> owes \<open>a\<close> 10.00", in whatever order the
  query hands the splits to \<open>update_debts\<close>.
\<close>

theorem end_to_end:
  assumes abc: "distinct [a, b, c]"
  shows "create_receipt_item_and_splits ri
           \<lparr>actual_price = 30, split_method = ''EVENLY'', paid_by_id = a, split_user_id = u\<rparr>
           [a, b, c]
         = Inr [ReceiptItemSplit ri a 10 a, ReceiptItemSplit ri b 10 a,
                ReceiptItemSplit ri c 10 a] \<and>
         update_debts [ReceiptItemSplit ri a 10 a, ReceiptItemSplit ri b 10 a,
                       ReceiptItemSplit ri c 10 a] g []
         = [\<lparr>group = g, debtor = b, creditor = a, amount = 10\<rparr>,
            \<lparr>group = g, debtor = c, creditor = a, amount = 10\<rparr>] \<and>
         (\<forall>splits. mset splits = mset [ReceiptItemSplit ri a 10 a, ReceiptItemSplit ri b 10 a,
                                        ReceiptItemSplit ri c 10 a] \<longrightarrow>
            set (update_debts splits g [])
            = {\<lparr>group = g, debtor = b, creditor = a, amount = 10\<rparr>,
               \<lparr>group = g, debtor = c, creditor = a, amount = 10\<rparr>})"
proof (intro conjI allI impI)
  show "create_receipt_item_and_splits ri
           \<lparr>actual_price = 30, split_method = ''EVENLY'', paid_by_id = a, split_user_id = u\<rparr>
           [a, b, c]
         = Inr [ReceiptItemSplit ri a 10 a, ReceiptItemSplit ri b 10 a,
                ReceiptItemSplit ri c 10 a]"
    by (simp add: evenly_splits quantize_30_3)
  note ev = update_debt_def filter_first_def key_def objects_create_def delete_def save_def
  show "update_debts [ReceiptItemSplit ri a 10 a, ReceiptItemSplit ri b 10 a,
                       ReceiptItemSplit ri c 10 a] g []
         = [\<lparr>group = g, debtor = b, creditor = a, amount = 10\<rparr>,
            \<lparr>group = g, debtor = c, creditor = a, amount = 10\<rparr>]"
    using abc by (simp add: ev)
  fix splits
  assume "mset splits = mset [ReceiptItemSplit ri a 10 a, ReceiptItemSplit ri b 10 a,
                              ReceiptItemSplit ri c 10 a]"
  then have "splits \<in> {[ReceiptItemSplit ri a 10 a, ReceiptItemSplit ri b 10 a, ReceiptItemSplit ri c 10 a],
      [ReceiptItemSplit ri a 10 a, ReceiptItemSplit ri c 10 a, ReceiptItemSplit ri b 10 a],
      [ReceiptItemSplit ri b 10 a, ReceiptItemSplit ri a 10 a, ReceiptItemSplit ri c 10 a],
      [ReceiptItemSplit ri b 10 a, ReceiptItemSplit ri c 10 a, ReceiptItemSplit ri a 10 a],
      [ReceiptItemSplit ri c 10 a, ReceiptItemSplit ri a 10 a, ReceiptItemSplit ri b 10 a],
      [ReceiptItemSplit ri c 10 a, ReceiptItemSplit ri b 10 a, ReceiptItemSplit ri a 10 a]}"
    by (rule mset_three)
  then show "set (update_debts splits g [])
            = {\<lparr>group = g, debtor = b, creditor = a, amount = 10\<rparr>,
               \<lparr>group = g, debtor = c, creditor = a, amount = 10\<rparr>}"
    using abc by (auto simp: ev)
qed

theorem end_to_end_witness:
  "update_debts [ReceiptItemSplit 9 1 10 1, ReceiptItemSplit 9 2 10 1,
                 ReceiptItemSplit 9 3 10 1] 5 []
   = [\<lparr>group = 5, debtor = 2, creditor = 1, amount = 10\<rparr>,
      \<lparr>group = 5, debtor = 3, creditor = 1, amount = 10\<rparr>] \<and>
   set (update_debts [ReceiptItemSplit 9 3 10 1, ReceiptItemSplit 9 1 10 1,
                      ReceiptItemSplit 9 2 10 1] 5 [])
   = {\<lparr>group = 5, debtor = 2, creditor = 1, amount = 10\<rparr>,
      \<lparr>group = 5, debtor = 3, creditor = 1, amount = 10\<rparr>}"
proof -
  have d: "distinct [1, 2, 3 :: uuid]" by simp
  have m: "mset [ReceiptItemSplit 9 3 10 1, ReceiptItemSplit 9 1 10 1, ReceiptItemSplit 9 2 10 1]
         = mset [ReceiptItemSplit 9 1 10 1, ReceiptItemSplit 9 2 10 1, ReceiptItemSplit 9 3 10 1]"
    by simp
  from end_to_end [OF d, of 9 None 5] m show ?thesis by blast
qed

section \<open>Validating a payment\<close>

lemma round_half_up_cases:
  obtains n where "x < 0" "round_half_up x = - n"
      "of_int n \<le> - x + 1 / 2" "- x + 1 / 2 < of_int n + 1"
  | n where "0 \<le> x" "round_half_up x = n" "of_int n \<le> x + 1 / 2" "x + 1 / 2 < of_int n + 1"
proof (cases "x < 0")
  case True
  define n where "n = \<lfloor>- x + 1 / 2\<rfloor>"
  have "of_int n \<le> - x + 1 / 2" and "- x + 1 / 2 < of_int n + 1"
    unfolding n_def by linarith+
  moreover have "round_half_up x = - n"
    using True by (simp add: round_half_up_def n_def)
  ultimately show ?thesis using True that(1) by blast
next
  case False
  define n where "n = \<lfloor>x + 1 / 2\<rfloor>"
  have "of_int n \<le> x + 1 / 2" and "x + 1 / 2 < of_int n + 1"
    unfolding n_def by linarith+
  moreover have "round_half_up x = n"
    using False by (simp add: round_half_up_def n_def)
  ultimately show ?thesis using False that(2) by force
qed

lemma round_half_up_near: "\<bar>of_int (round_half_up x) - x\<bar> \<le> 1 / 2"
proof (cases x rule: round_half_up_cases)
  case (1 n)
  then show ?thesis unfolding 1(2) of_int_minus by linarith
next
  case (2 n)
  then show ?thesis unfolding 2(2) by linarith
qed

lemma round_half_up_tie:
  assumes "\<bar>of_int (round_half_up x) - x\<bar> = 1 / 2"
  shows "\<bar>x\<bar> < \<bar>of_int (round_half_up x)\<bar>"
proof (cases x rule: round_half_up_cases)
  case (1 n)
  then show ?thesis using assms unfolding 1(2) of_int_minus by linarith
next
  case (2 n)
  then show ?thesis using assms unfolding 2(2) by linarith
qed

lemma quantize_half_up: "quantize ROUND_HALF_UP x = of_int (round_half_up (x * 100)) / 100"
  by (simp add: quantize_def)

lemma quantize_half_up_near: "\<bar>quantize ROUND_HALF_UP x - x\<bar> \<le> 1 / 200"
proof -
  have "\<bar>of_int (round_half_up (x * 100)) - x * 100\<bar> \<le> 1 / 2"
    by (rule round_half_up_near)
  then show ?thesis
    unfolding quantize_half_up by (simp add: abs_le_iff field_simps)
qed

lemma quantize_half_up_tie:
  assumes "\<bar>quantize ROUND_HALF_UP x - x\<bar> = 1 / 200"
  shows "\<bar>x\<bar> < \<bar>quantize ROUND_HALF_UP x\<bar>"
proof -
  have "\<bar>of_int (round_half_up (x * 100)) - x * 100\<bar> = 1 / 2"
    using assms unfolding quantize_half_up by (simp add: abs_if field_simps split: if_splits)
  then have "\<bar>x * 100\<bar> < \<bar>of_int (round_half_up (x * 100))\<bar>"
    by (rule round_half_up_tie)
  then show ?thesis
    unfolding quantize_half_up by (simp add: abs_if field_simps split: if_splits)
qed

lemma validate_numeric:
  "validate_payment_amount (Numeric v) debt_amount =
     Inr (if quantize ROUND_HALF_UP v \<le> 0 then
            Invalid ''Payment amount must be greater than 0.''
          else if quantize ROUND_HALF_UP v > debt_amount then
            Invalid ''Payment amount cannot exceed the debt amount.''
          else Valid (quantize ROUND_HALF_UP v))"
  by (simp add: validate_payment_amount_def Decimal_str_def except_TypeError_ValueError_def)

lemma validate_numeric_valid:
  "validate_payment_amount (Numeric v) debt_amount = Inr (Valid p) \<longleftrightarrow>
     p = quantize ROUND_HALF_UP v \<and> 0 < p \<and> p \<le> debt_amount"
  by (auto simp: validate_numeric)

lemma validate_numeric_invalid:
  "(\<exists>m. validate_payment_amount (Numeric v) debt_amount = Inr (Invalid m)) \<longleftrightarrow>
     quantize ROUND_HALF_UP v \<le> 0 \<or> debt_amount < quantize ROUND_HALF_UP v"
  by (auto simp: validate_numeric)

text \<open>
  C5 fails on the code for an input that is no number. The claim has the function return
  an error then, as its last line \<open>return False, "Invalid payment amount."\<close> means to. But
  \<open>Decimal(str(payment_amount))\<close> raises \<open>decimal.InvalidOperation\<close>, which the clause
  \<open>except (TypeError, ValueError)\<close> does not catch: the exception leaves the function, and
  leaves \<open>PayDebtView.post\<close>, which calls it outside its \<open>try\<close>.
\<close>

theorem validate_non_numeric_raises:
  "validate_payment_amount NonNumeric 50 = Inl InvalidOperation \<and>
   post (Some 1) NonNumeric 1 (1, 2) [\<lparr>group = 1, debtor = 1, creditor = 2, amount = 50\<rparr>]
     = Inl InvalidOperation"
  by (simp add: validate_payment_amount_def Decimal_str_def except_TypeError_ValueError_def
      post_def filter_first_def key_def)

section \<open>Settling a debt\<close>

lemma quantize_up_50: "quantize ROUND_HALF_UP 50 = 50"
  by code_simp

lemma quantize_up_5001: "quantize ROUND_HALF_UP (5001 / 100) = 5001 / 100"
  by code_simp

lemma quantize_up_49999: "quantize ROUND_HALF_UP (49999 / 1000) = 50"
  by code_simp

lemma post_valid:
  assumes found: "filter_first g d c t = Some debt"
      and involved: "u = d \<or> u = c"
      and pos: "0 < quantize ROUND_HALF_UP v"
      and le: "quantize ROUND_HALF_UP v \<le> amount debt"
  shows "post (Some u) (Numeric v) g (d, c) t =
           (if amount debt - quantize ROUND_HALF_UP v = 0 then
              Inr (Response (Message ''Debt fully paid and deleted.'') 200, delete debt t)
            else
              Inr (Response (DebtData (debt\<lparr>amount := amount debt - quantize ROUND_HALF_UP v\<rparr>)) 200,
                   save (debt\<lparr>amount := amount debt - quantize ROUND_HALF_UP v\<rparr>) t))"
proof -
  have k: "debtor debt = d" "creditor debt = c"
    using filter_first_key [OF found] by (simp_all add: key_def)
  have v: "validate_payment_amount (Numeric v) (amount debt) = Inr (Valid (quantize ROUND_HALF_UP v))"
    using pos le by (simp add: validate_numeric)
  show ?thesis
    using involved pos le by (auto simp: post_def found k v Let_def)
qed

text \<open>
  C6. A payment that validates against an edge, its amount \<open>p\<close> after rounding with
  \<open>0 < p \<le> edge.amount\<close>, made by the debtor or the creditor of the edge, lowers the
  edge by \<open>p\<close>. At exactly zero the edge is deleted and the response says that the debt is
  fully paid; otherwise the edge stays with the lowered amount. No other edge changes.
  On an edge of 50.00: paying 50.00 deletes the edge, paying 50.01 is rejected and changes
  nothing, and paying 49.999 is rounded to 50.00 and deletes the edge.
\<close>

theorem settlement:
  assumes found: "filter_first g d c t = Some debt"
      and involved: "u = d \<or> u = c"
      and pos: "0 < quantize ROUND_HALF_UP v"
      and le: "quantize ROUND_HALF_UP v \<le> amount debt"
  shows "(\<exists>resp t'. post (Some u) (Numeric v) g (d, c) t = Inr (resp, t') \<and>
            edge t' g d c =
              (if amount debt - quantize ROUND_HALF_UP v = 0 then None
               else Some (amount debt - quantize ROUND_HALF_UP v)) \<and>
            (resp = Response (Message ''Debt fully paid and deleted.'') 200
               \<longleftrightarrow> amount debt - quantize ROUND_HALF_UP v = 0) \<and>
            (\<forall>g' d' c'. (g', d', c') \<noteq> (g, d, c) \<longrightarrow> edge t' g' d' c' = edge t g' d' c')) \<and>
         post (Some 1) (Numeric 50) 1 (1, 2)
           [\<lparr>group = 1, debtor = 1, creditor = 2, amount = 50\<rparr>]
           = Inr (Response (Message ''Debt fully paid and deleted.'') 200, []) \<and>
         post (Some 1) (Numeric (5001 / 100)) 1 (1, 2)
           [\<lparr>group = 1, debtor = 1, creditor = 2, amount = 50\<rparr>]
           = Inr (Response (Error ''Payment amount cannot exceed the debt amount.'') 400,
                  [\<lparr>group = 1, debtor = 1, creditor = 2, amount = 50\<rparr>]) \<and>
         post (Some 1) (Numeric (49999 / 1000)) 1 (1, 2)
           [\<lparr>group = 1, debtor = 1, creditor = 2, amount = 50\<rparr>]
           = Inr (Response (Message ''Debt fully paid and deleted.'') 200, [])"
proof (intro conjI)
  let ?p = "quantize ROUND_HALF_UP v"
  have k: "key debt = (g, d, c)" by (rule filter_first_key [OF found])
  have e: "edge t g d c = Some (amount debt)" using found by (simp add: edge_def)
  show "\<exists>resp t'. post (Some u) (Numeric v) g (d, c) t = Inr (resp, t') \<and>
            edge t' g d c = (if amount debt - ?p = 0 then None else Some (amount debt - ?p)) \<and>
            (resp = Response (Message ''Debt fully paid and deleted.'') 200
               \<longleftrightarrow> amount debt - ?p = 0) \<and>
            (\<forall>g' d' c'. (g', d', c') \<noteq> (g, d, c) \<longrightarrow> edge t' g' d' c' = edge t g' d' c')"
  proof (cases "amount debt - ?p = 0")
    case True
    have "post (Some u) (Numeric v) g (d, c) t =
            Inr (Response (Message ''Debt fully paid and deleted.'') 200, delete debt t)"
      using True by (simp add: post_valid [OF assms])
    moreover have "edge (delete debt t) g d c = None"
      using k by (simp add: edge_delete)
    moreover have "\<forall>g' d' c'. (g', d', c') \<noteq> (g, d, c) \<longrightarrow>
        edge (delete debt t) g' d' c' = edge t g' d' c'"
      using k by (simp add: edge_delete)
    ultimately show ?thesis using True by simp
  next
    case False
    let ?debt = "debt\<lparr>amount := amount debt - ?p\<rparr>"
    have "post (Some u) (Numeric v) g (d, c) t = Inr (Response (DebtData ?debt) 200, save ?debt t)"
      using False by (simp add: post_valid [OF assms])
    moreover have "edge (save ?debt t) g d c = Some (amount debt - ?p)"
      using k e by (simp add: edge_save)
    moreover have "\<forall>g' d' c'. (g', d', c') \<noteq> (g, d, c) \<longrightarrow>
        edge (save ?debt t) g' d' c' = edge t g' d' c'"
      using k by (simp add: edge_save)
    ultimately show ?thesis using False by simp
  qed
  note ev = post_def filter_first_def key_def validate_numeric delete_def save_def
  show "post (Some 1) (Numeric 50) 1 (1, 2)
           [\<lparr>group = 1, debtor = 1, creditor = 2, amount = 50\<rparr>]
           = Inr (Response (Message ''Debt fully paid and deleted.'') 200, [])"
    by (simp add: ev quantize_up_50)
  show "post (Some 1) (Numeric (5001 / 100)) 1 (1, 2)
           [\<lparr>group = 1, debtor = 1, creditor = 2, amount = 50\<rparr>]
           = Inr (Response (Error ''Payment amount cannot exceed the debt amount.'') 400,
                  [\<lparr>group = 1, debtor = 1, creditor = 2, amount = 50\<rparr>])"
    by (simp add: ev quantize_up_5001)
  show "post (Some 1) (Numeric (49999 / 1000)) 1 (1, 2)
           [\<lparr>group = 1, debtor = 1, creditor = 2, amount = 50\<rparr>]
           = Inr (Response (Message ''Debt fully paid and deleted.'') 200, [])"
    by (simp add: ev quantize_up_49999)
qed

lemma quantize_up_20: "quantize ROUND_HALF_UP 20 = 20"
  by code_simp

theorem settlement_witness:
  "\<exists>resp t'. post (Some 2) (Numeric 20) 1 (1, 2)
       [\<lparr>group = 1, debtor = 1, creditor = 2, amount = 50\<rparr>] = Inr (resp, t') \<and>
     edge t' 1 1 2 = Some 30 \<and>
     resp \<noteq> Response (Message ''Debt fully paid and deleted.'') 200"
proof -
  have f: "filter_first 1 1 2 [\<lparr>group = 1, debtor = 1, creditor = 2, amount = 50\<rparr>]
           = Some \<lparr>group = 1, debtor = 1, creditor = 2, amount = 50\<rparr>"
    by (simp add: filter_first_def key_def)
  have i: "(2 :: uuid) = 1 \<or> (2 :: uuid) = 2" by simp
  have p: "0 < quantize ROUND_HALF_UP 20" by (simp add: quantize_up_20)
  have l: "quantize ROUND_HALF_UP 20 \<le> amount \<lparr>group = 1, debtor = 1, creditor = 2, amount = 50\<rparr>"
    by (simp add: quantize_up_20)
  from settlement [OF f i p l] show ?thesis
    by (auto simp: quantize_up_20)
qed

section \<open>Strictly positive obligations\<close>

text \<open>
  When every obligation between two different members has a strictly positive amount,
  \<open>update_debts\<close> keeps the invariant of the ledger, and the edges it leaves do not depend
  on the order of the obligations. This section proves both.
\<close>

lemma filter_first_mem: "filter_first g d c t = Some r \<Longrightarrow> r \<in> set t"
  by (auto simp: filter_first_def find_Some_iff)

lemma filter_first_None: "filter_first g d c t = None \<longleftrightarrow> (g, d, c) \<notin> key ` set t"
  by (force simp: filter_first_def find_None_iff)

lemma filter_first_distinct:
  "distinct (map key t) \<Longrightarrow> r \<in> set t \<Longrightarrow>
   filter_first (group r) (debtor r) (creditor r) t = Some r"
proof (induction t)
  case Nil
  then show ?case by simp
next
  case (Cons x t)
  show ?case
  proof (cases "r = x")
    case True
    then show ?thesis by (simp add: filter_first_def key_def)
  next
    case False
    then have r: "r \<in> set t" using Cons.prems by simp
    then have "key x \<noteq> key r" using Cons.prems by auto
    then have "key x \<noteq> (group r, debtor r, creditor r)" by (simp add: key_def)
    moreover have "filter_first (group r) (debtor r) (creditor r) t = Some r"
      using Cons r by simp
    ultimately show ?thesis by (simp add: filter_first_def)
  qed
qed

lemma edge_distinct:
  "distinct (map key t) \<Longrightarrow> r \<in> set t \<Longrightarrow>
   edge t (group r) (debtor r) (creditor r) = Some (amount r)"
  by (simp add: edge_def filter_first_distinct)

lemma edge_row:
  assumes "edge t g d c = Some x"
  obtains r where "r \<in> set t" "key r = (g, d, c)" "amount r = x"
proof -
  from assms obtain r where r: "filter_first g d c t = Some r" and x: "amount r = x"
    by (auto simp: edge_def)
  show ?thesis
    using that [of r] filter_first_mem [OF r] filter_first_key [OF r] x by simp
qed

text \<open>The key stays unique.\<close>

lemma map_key_save: "map key (save r t) = map key t"
  by (induction t) (simp_all add: save_def)

lemma distinct_delete: "distinct (map key t) \<Longrightarrow> distinct (map key (delete r t))"
  by (simp add: delete_def distinct_map_filter)

lemma distinct_create:
  "distinct (map key t) \<Longrightarrow> filter_first g d c t = None \<Longrightarrow> key r = (g, d, c) \<Longrightarrow>
   distinct (map key (objects_create r t))"
  by (auto simp: objects_create_def filter_first_None)

lemma distinct_update_debt:
  assumes "distinct (map key t)"
  shows "distinct (map key (update_debt s g t))"
proof (cases s)
  case (ReceiptItemSplit ri d a c)
  show ?thesis
  proof (cases "d = c")
    case True
    then show ?thesis unfolding ReceiptItemSplit using assms by (simp add: update_debt_self)
  next
    case dc: False
    show ?thesis
    proof (cases "filter_first g d c t")
      case (Some r)
      show ?thesis
        unfolding ReceiptItemSplit update_debt_same [OF dc Some]
        using assms by (simp add: distinct_delete map_key_save)
    next
      case None
      show ?thesis
      proof (cases "filter_first g c d t")
        case (Some r)
        have "distinct (map key (objects_create
                \<lparr>group = g, debtor = d, creditor = c, amount = x\<rparr> t))" for x
          using assms None by (rule distinct_create) (simp add: key_def)
        then show ?thesis
          unfolding ReceiptItemSplit update_debt_reverse [OF dc None Some]
          using assms by (simp add: distinct_delete map_key_save)
      next
        case None': None
        show ?thesis
          unfolding ReceiptItemSplit update_debt_new [OF dc None None']
          using assms None by (rule distinct_create) (simp add: key_def)
      qed
    qed
  qed
qed

lemma distinct_update_debts:
  "distinct (map key t) \<Longrightarrow> distinct (map key (update_debts ss g t))"
proof (induction ss arbitrary: t)
  case Nil
  then show ?case by simp
next
  case (Cons s ss)
  have "distinct (map key (update_debt s g t))"
    using Cons.prems by (rule distinct_update_debt)
  then have "distinct (map key (update_debts ss g (update_debt s g t)))"
    by (rule Cons.IH)
  then show ?case by simp
qed


text \<open>The ledger stays netted.\<close>

lemma fold_edge_netted:
  assumes "0 < a"
  shows "fold_edge (if 0 < n then Some n else None) (if 0 < - n then Some (- n) else None) a
         = (if 0 < n + a then Some (n + a) else None,
            if 0 < - (n + a) then Some (- (n + a)) else None)"
  using assms by (auto simp: fold_edge_def)

lemma net_update_debt_group:
  assumes "g' \<noteq> g"
  shows "net_balance (update_debt s g t) g' a b = net_balance t g' a b"
proof (cases s)
  case (ReceiptItemSplit ri d x c)
  have "edge (update_debt (ReceiptItemSplit ri d x c) g t) g' a b = edge t g' a b"
    using assms by (intro edge_update_debt_other) simp_all
  moreover have "edge (update_debt (ReceiptItemSplit ri d x c) g t) g' b a = edge t g' b a"
    using assms by (intro edge_update_debt_other) simp_all
  ultimately show ?thesis
    unfolding ReceiptItemSplit by (simp add: net_balance_def owes_def)
qed

lemma netted_update_debt:
  assumes n: "netted t"
      and pos: "group_member s \<noteq> paid_by s \<longrightarrow> 0 < ReceiptItemSplit.amount s"
  shows "netted (update_debt s g t)"
proof (cases s)
  case (ReceiptItemSplit ri d a c)
  show ?thesis
  proof (cases "d = c")
    case True
    then show ?thesis unfolding ReceiptItemSplit using n by (simp add: update_debt_self)
  next
    case dc: False
    then have a: "0 < a" using pos ReceiptItemSplit by simp
    let ?t' = "update_debt (ReceiptItemSplit ri d a c) g t"
    let ?n = "net_balance t g d c"
    have fwd: "edge t g d c = (if 0 < ?n then Some ?n else None)"
      using n dc by (simp add: netted_def)
    have "edge t g c d = (if 0 < net_balance t g c d then Some (net_balance t g c d) else None)"
      using n dc by (simp add: netted_def)
    then have bwd: "edge t g c d = (if 0 < - ?n then Some (- ?n) else None)"
      by (simp add: net_balance_flip [of t g c d])
    have net': "net_balance ?t' g d c = ?n + a"
      by (rule net_update_debt_pair [OF dc])
    then have net'': "net_balance ?t' g c d = - (?n + a)"
      by (simp add: net_balance_flip [of ?t' g c d])
    have e1: "edge ?t' g d c = (if 0 < ?n + a then Some (?n + a) else None)"
      unfolding edge_update_debt_fwd [OF dc] fwd bwd fold_edge_netted [OF a] by simp
    have e2: "edge ?t' g c d = (if 0 < - (?n + a) then Some (- (?n + a)) else None)"
      unfolding edge_update_debt_bwd [OF dc] fwd bwd fold_edge_netted [OF a] by simp
    have "edge ?t' g' d' c' =
            (if 0 < net_balance ?t' g' d' c' then Some (net_balance ?t' g' d' c') else None)"
      if dc': "d' \<noteq> c'" for g' d' c'
    proof -
      consider "(g', d', c') = (g, d, c)" | "(g', d', c') = (g, c, d)"
        | "g' \<noteq> g" | "g' = g" "(d', c') \<noteq> (d, c)" "(d', c') \<noteq> (c, d)"
        by blast
      then show ?thesis
      proof cases
        case 1
        then show ?thesis using e1 net' by simp
      next
        case 2
        then show ?thesis using e2 net'' by simp
      next
        case 3
        then have "edge ?t' g' d' c' = edge t g' d' c'"
          by (intro edge_update_debt_other) simp_all
        moreover have "net_balance ?t' g' d' c' = net_balance t g' d' c'"
          using 3 by (rule net_update_debt_group)
        ultimately show ?thesis using n dc' by (simp add: netted_def)
      next
        case 4
        then have "edge ?t' g' d' c' = edge t g' d' c'"
          by (intro edge_update_debt_other) simp_all
        moreover have "net_balance ?t' g' d' c' = net_balance t g' d' c'"
          unfolding 4(1) using 4(2,3) by (rule net_update_debt_other)
        ultimately show ?thesis using n dc' by (simp add: netted_def)
      qed
    qed
    then show ?thesis unfolding ReceiptItemSplit netted_def by blast
  qed
qed

lemma netted_update_debts:
  assumes "netted t"
      and "\<forall>s \<in> set ss. group_member s \<noteq> paid_by s \<longrightarrow> 0 < ReceiptItemSplit.amount s"
  shows "netted (update_debts ss g t)"
  using assms
proof (induction ss arbitrary: t)
  case Nil
  then show ?case by simp
next
  case (Cons s ss)
  have s: "group_member s \<noteq> paid_by s \<longrightarrow> 0 < ReceiptItemSplit.amount s"
    using Cons.prems(2) by simp
  have ss: "\<forall>s \<in> set ss. group_member s \<noteq> paid_by s \<longrightarrow> 0 < ReceiptItemSplit.amount s"
    using Cons.prems(2) by simp
  have "netted (update_debt s g t)"
    by (rule netted_update_debt [OF Cons.prems(1) s])
  then have "netted (update_debts ss g (update_debt s g t))"
    using ss by (rule Cons.IH)
  then show ?case by simp
qed


text \<open>Edges of other groups and edges from a member to itself are never touched.\<close>

lemma edge_update_debt_untouched:
  assumes "g' \<noteq> g \<or> d' = c'"
  shows "edge (update_debt s g t) g' d' c' = edge t g' d' c'"
proof (cases s)
  case (ReceiptItemSplit ri d a c)
  show ?thesis
  proof (cases "d = c")
    case True
    then show ?thesis unfolding ReceiptItemSplit by (simp add: update_debt_self)
  next
    case False
    then have "(g', d', c') \<noteq> (g, d, c)" and "(g', d', c') \<noteq> (g, c, d)"
      using assms by auto
    then show ?thesis unfolding ReceiptItemSplit by (rule edge_update_debt_other)
  qed
qed

lemma edge_update_debts_untouched:
  assumes "g' \<noteq> g \<or> d' = c'"
  shows "edge (update_debts ss g t) g' d' c' = edge t g' d' c'"
proof (induction ss arbitrary: t)
  case Nil
  show ?case by simp
next
  case (Cons s ss)
  show ?case
    by (simp add: Cons.IH edge_update_debt_untouched [OF assms])
qed

lemma net_update_debts_group:
  assumes "g' \<noteq> g"
  shows "net_balance (update_debts ss g t) g' a b = net_balance t g' a b"
  using assms by (simp add: net_balance_def owes_def edge_update_debts_untouched)

lemma self_rows_update_debt:
  assumes "r \<in> set (update_debt s g t)" and "debtor r = creditor r"
  shows "r \<in> set t"
proof (cases s)
  case (ReceiptItemSplit ri d a c)
  show ?thesis
  proof (cases "d = c")
    case True
    then show ?thesis using assms(1) unfolding ReceiptItemSplit by (simp add: update_debt_self)
  next
    case False
    then have "\<not> on_pair g d c r" using assms(2) by (auto simp: on_pair_def)
    then have "r \<in> set (filter (\<lambda>x. \<not> on_pair g d c x)
                 (update_debt (ReceiptItemSplit ri d a c) g t))"
      using assms(1) unfolding ReceiptItemSplit by simp
    then have "r \<in> set (filter (\<lambda>x. \<not> on_pair g d c x) t)"
      by (simp only: frame_update_debt)
    then show ?thesis by simp
  qed
qed

lemma self_rows_update_debts:
  "r \<in> set (update_debts ss g t) \<Longrightarrow> debtor r = creditor r \<Longrightarrow> r \<in> set t"
proof (induction ss arbitrary: t)
  case Nil
  then show ?case by simp
next
  case (Cons s ss)
  have "r \<in> set (update_debts ss g (update_debt s g t))"
    using Cons.prems(1) by simp
  then have "r \<in> set (update_debt s g t)"
    using Cons.prems(2) by (rule Cons.IH)
  then show ?case using Cons.prems(2) by (rule self_rows_update_debt)
qed

text \<open>The invariant, read through the edges.\<close>

lemma invariant_netted:
  assumes "ledger_invariant t"
  shows "netted t"
  unfolding netted_def
proof (intro allI impI)
  fix g d c :: uuid
  assume dc: "d \<noteq> c"
  have row: "0 < x \<and> edge t g c' d' = None"
    if "edge t g d' c' = Some x" and "d' \<noteq> c'" for d' c' x
  proof -
    from that(1) obtain r where "r \<in> set t" "key r = (g, d', c')" "amount r = x"
      by (rule edge_row)
    then show ?thesis
      using assms that(2) by (auto simp: ledger_invariant_def key_def)
  qed
  show "edge t g d c = (if 0 < net_balance t g d c then Some (net_balance t g d c) else None)"
  proof (cases "edge t g d c")
    case (Some x)
    then show ?thesis
      using row [OF Some dc] by (simp add: net_balance_def owes_def)
  next
    case None
    show ?thesis
    proof (cases "edge t g c d")
      case (Some y)
      then have "0 < y" using row [of c d y] dc by simp
      then show ?thesis using None Some by (simp add: net_balance_def owes_def)
    next
      case None': None
      show ?thesis using None None' by (simp add: net_balance_def owes_def)
    qed
  qed
qed

lemma netted_invariant:
  assumes d: "distinct (map key t)" and n: "netted t"
      and self: "\<forall>r \<in> set t. debtor r = creditor r \<longrightarrow> 0 < amount r"
  shows "ledger_invariant t"
  unfolding ledger_invariant_def
proof (intro conjI ballI impI)
  show "distinct (map key t)" by (rule d)
next
  fix r assume r: "r \<in> set t"
  have e: "edge t (group r) (debtor r) (creditor r) = Some (amount r)"
    by (rule edge_distinct [OF d r])
  show "0 < amount r"
  proof (cases "debtor r = creditor r")
    case True
    then show ?thesis using self r by simp
  next
    case False
    then have "edge t (group r) (debtor r) (creditor r) =
        (if 0 < net_balance t (group r) (debtor r) (creditor r)
         then Some (net_balance t (group r) (debtor r) (creditor r)) else None)"
      using n by (simp add: netted_def)
    then show ?thesis using e by (simp split: if_splits)
  qed
next
  fix r assume r: "r \<in> set t" and dc: "debtor r \<noteq> creditor r"
  have e: "edge t (group r) (debtor r) (creditor r) = Some (amount r)"
    by (rule edge_distinct [OF d r])
  have f: "edge t (group r) (debtor r) (creditor r) =
        (if 0 < net_balance t (group r) (debtor r) (creditor r)
         then Some (net_balance t (group r) (debtor r) (creditor r)) else None)"
    using n dc by (simp add: netted_def)
  have pos: "0 < net_balance t (group r) (debtor r) (creditor r)"
    using e f by (simp split: if_splits)
  have "edge t (group r) (creditor r) (debtor r) =
        (if 0 < net_balance t (group r) (creditor r) (debtor r)
         then Some (net_balance t (group r) (creditor r) (debtor r)) else None)"
    using n dc by (simp add: netted_def)
  then show "edge t (group r) (creditor r) (debtor r) = None"
    using pos by (simp add: net_balance_flip [of t "group r" "creditor r" "debtor r"])
qed

text \<open>
  With strictly positive obligations between different members, \<open>update_debts\<close> keeps the
  invariant of the ledger: the key stays unique, no pair gets edges in both directions,
  and every amount stays strictly positive.
\<close>

lemma invariant_update_debts:
  assumes inv: "ledger_invariant t"
      and pos: "\<forall>s \<in> set ss. group_member s \<noteq> paid_by s \<longrightarrow> 0 < ReceiptItemSplit.amount s"
  shows "ledger_invariant (update_debts ss g t)"
proof (rule netted_invariant)
  show "distinct (map key (update_debts ss g t))"
    using inv by (intro distinct_update_debts) (simp add: ledger_invariant_def)
  show "netted (update_debts ss g t)"
    by (rule netted_update_debts [OF invariant_netted [OF inv] pos])
  show "\<forall>r \<in> set (update_debts ss g t). debtor r = creditor r \<longrightarrow> 0 < amount r"
  proof (intro ballI impI)
    fix r assume "r \<in> set (update_debts ss g t)" and "debtor r = creditor r"
    then have "r \<in> set t" by (rule self_rows_update_debts)
    then show "0 < amount r" using inv by (simp add: ledger_invariant_def)
  qed
qed

text \<open>The total of the obligations of a pair does not depend on their order.\<close>

lemma obligations_mset:
  assumes "mset ss = mset ss'"
  shows "obligations ss a b = obligations ss' a b"
proof -
  have "obligations xs a b =
          sum_mset (image_mset ReceiptItemSplit.amount
            (filter_mset (\<lambda>s. group_member s = a \<and> paid_by s = b) (mset xs)))" for xs
    unfolding obligations_def
    by (simp only: sum_mset_sum_list [symmetric] mset_map mset_filter)
  then show ?thesis using assms by simp
qed

text \<open>
  With strictly positive obligations between different members, folded into a ledger
  that satisfies the invariant, the final set of edges does not depend on the order of
  the obligations.
\<close>

lemma order_update_debts:
  assumes inv: "ledger_invariant t"
      and pos: "\<forall>s \<in> set ss. group_member s \<noteq> paid_by s \<longrightarrow> 0 < ReceiptItemSplit.amount s"
      and perm: "mset ss' = mset ss"
  shows "set (update_debts ss' g t) = set (update_debts ss g t)"
proof -
  have pos': "\<forall>s \<in> set ss'. group_member s \<noteq> paid_by s \<longrightarrow> 0 < ReceiptItemSplit.amount s"
    using pos mset_eq_setD [OF perm] by simp
  let ?t1 = "update_debts ss g t" and ?t2 = "update_debts ss' g t"
  have n1: "netted ?t1" by (rule netted_update_debts [OF invariant_netted [OF inv] pos])
  have n2: "netted ?t2" by (rule netted_update_debts [OF invariant_netted [OF inv] pos'])
  have d0: "distinct (map key t)" using inv by (simp add: ledger_invariant_def)
  have d1: "distinct (map key ?t1)" by (rule distinct_update_debts [OF d0])
  have d2: "distinct (map key ?t2)" by (rule distinct_update_debts [OF d0])
  have net: "net_balance ?t2 g' d c = net_balance ?t1 g' d c" for g' d c
  proof (cases "g' = g")
    case True
    then show ?thesis
      by (simp add: net_update_debts obligations_mset [OF perm])
  next
    case False
    then show ?thesis by (simp add: net_update_debts_group)
  qed
  have edges: "edge ?t2 g' d c = edge ?t1 g' d c" for g' d c
  proof (cases "d = c")
    case True
    then show ?thesis by (simp add: edge_update_debts_untouched)
  next
    case False
    then show ?thesis
      using n1 n2 by (simp add: netted_def net)
  qed
  have sub: "set a \<subseteq> set b"
    if da: "distinct (map key a)" and e: "\<And>g' d c. edge a g' d c = edge b g' d c" for a b
  proof
    fix r assume "r \<in> set a"
    then have "edge a (group r) (debtor r) (creditor r) = Some (amount r)"
      by (rule edge_distinct [OF da])
    then have "edge b (group r) (debtor r) (creditor r) = Some (amount r)"
      by (simp add: e)
    then obtain r' where r': "r' \<in> set b" "key r' = (group r, debtor r, creditor r)"
        "amount r' = amount r"
      by (rule edge_row)
    then have "r' = r" by (simp add: key_def)
    then show "r \<in> set b" using r'(1) by simp
  qed
  show ?thesis
  proof
    show "set ?t2 \<subseteq> set ?t1" by (rule sub [OF d2]) (rule edges)
    show "set ?t1 \<subseteq> set ?t2" by (rule sub [OF d1]) (simp add: edges)
  qed
qed


text \<open>
  Whatever the amounts, \<open>update_debts\<close> never leaves edges in both directions between two
  members.
\<close>

lemma fold_edge_one_direction:
  assumes "f \<noteq> None \<longrightarrow> b = None"
  shows "fst (fold_edge f b a) = None \<or> snd (fold_edge f b a) = None"
  using assms by (auto simp: fold_edge_def split: option.splits)

lemma one_direction_update_debt:
  assumes one: "\<forall>g d c. d \<noteq> c \<longrightarrow> edge t g d c \<noteq> None \<longrightarrow> edge t g c d = None"
  shows "\<forall>g' d' c'. d' \<noteq> c' \<longrightarrow> edge (update_debt s g t) g' d' c' \<noteq> None \<longrightarrow>
           edge (update_debt s g t) g' c' d' = None"
proof (cases s)
  case (ReceiptItemSplit ri d a c)
  show ?thesis
  proof (cases "d = c")
    case True
    then show ?thesis unfolding ReceiptItemSplit using one by (simp add: update_debt_self)
  next
    case dc: False
    let ?t' = "update_debt (ReceiptItemSplit ri d a c) g t"
    have "edge t g d c \<noteq> None \<longrightarrow> edge t g c d = None"
      using one dc by blast
    then have pair: "edge ?t' g d c = None \<or> edge ?t' g c d = None"
      unfolding edge_update_debt_fwd [OF dc] edge_update_debt_bwd [OF dc]
      by (rule fold_edge_one_direction)
    have "edge ?t' g' c' d' = None" if "d' \<noteq> c'" and e: "edge ?t' g' d' c' \<noteq> None"
      for g' d' c'
    proof -
      consider "(g', d', c') = (g, d, c)" | "(g', d', c') = (g, c, d)"
        | "(g', d', c') \<noteq> (g, d, c)" "(g', d', c') \<noteq> (g, c, d)"
        by blast
      then show ?thesis
      proof cases
        case 1
        then show ?thesis using pair e by auto
      next
        case 2
        then show ?thesis using pair e by auto
      next
        case 3
        then have "(g', c', d') \<noteq> (g, d, c)" and "(g', c', d') \<noteq> (g, c, d)" by auto
        then have "edge ?t' g' c' d' = edge t g' c' d'" by (rule edge_update_debt_other)
        moreover have "edge ?t' g' d' c' = edge t g' d' c'"
          using 3 by (rule edge_update_debt_other)
        ultimately show ?thesis using one that by simp
      qed
    qed
    then show ?thesis unfolding ReceiptItemSplit by blast
  qed
qed

lemma one_direction_update_debts:
  assumes "\<forall>g d c. d \<noteq> c \<longrightarrow> edge t g d c \<noteq> None \<longrightarrow> edge t g c d = None"
  shows "\<forall>g' d' c'. d' \<noteq> c' \<longrightarrow> edge (update_debts ss g t) g' d' c' \<noteq> None \<longrightarrow>
           edge (update_debts ss g t) g' c' d' = None"
  using assms
proof (induction ss arbitrary: t)
  case Nil
  then show ?case by simp
next
  case (Cons s ss)
  have "\<forall>g' d' c'. d' \<noteq> c' \<longrightarrow> edge (update_debt s g t) g' d' c' \<noteq> None \<longrightarrow>
           edge (update_debt s g t) g' c' d' = None"
    using Cons.prems by (rule one_direction_update_debt)
  then have "\<forall>g' d' c'. d' \<noteq> c' \<longrightarrow>
           edge (update_debts ss g (update_debt s g t)) g' d' c' \<noteq> None \<longrightarrow>
           edge (update_debts ss g (update_debt s g t)) g' c' d' = None"
    by (rule Cons.IH)
  then show ?case by simp
qed

section \<open>Obligations of amount zero\<close>

lemma quantize_third_cent: "quantize context_rounding (1 / 300) = 0"
  by code_simp

text \<open>
  C1 fails on the code for an obligation of amount zero. Both branches that find an edge
  delete it when its amount becomes zero, but the branch that finds none creates the edge
  without looking at the amount. One cent split \<open>EVENLY\<close> over three members gives three
  splits of 0.00; folded into the empty ledger, which satisfies the invariant, they leave
  two edges of amount zero.
\<close>

theorem zero_amount_edge:
  "create_receipt_item_and_splits 9
     \<lparr>actual_price = 1 / 100, split_method = ''EVENLY'', paid_by_id = 1, split_user_id = None\<rparr>
     [1, 2, 3]
   = Inr [ReceiptItemSplit 9 1 0 1, ReceiptItemSplit 9 2 0 1, ReceiptItemSplit 9 3 0 1] \<and>
   update_debts [ReceiptItemSplit 9 1 0 1, ReceiptItemSplit 9 2 0 1, ReceiptItemSplit 9 3 0 1] 5 []
   = [\<lparr>group = 5, debtor = 2, creditor = 1, amount = 0\<rparr>,
      \<lparr>group = 5, debtor = 3, creditor = 1, amount = 0\<rparr>] \<and>
   edge (update_debts [ReceiptItemSplit 9 1 0 1, ReceiptItemSplit 9 2 0 1,
                       ReceiptItemSplit 9 3 0 1] 5 []) 5 2 1 = Some 0"
  by (simp add: evenly_splits quantize_third_cent update_debt_def filter_first_def key_def
      objects_create_def edge_def)

text \<open>
  C8 fails on the code, by the same defect. The edge "1 owes 2 5.00" with the obligations
  "2 owes 1 5.00" and "1 owes 2 0.00": folded in this order, the first cancels the edge and
  the second creates an edge of amount zero; in the other order the second changes
  nothing and the first cancels the edge, leaving no edge. The same happens on the empty
  ledger with a third obligation "1 owes 2 5.00".
\<close>

theorem fold_order_matters:
  "update_debts [ReceiptItemSplit 9 2 5 1, ReceiptItemSplit 8 1 0 2] 5
     [\<lparr>group = 5, debtor = 1, creditor = 2, amount = 5\<rparr>]
   = [\<lparr>group = 5, debtor = 1, creditor = 2, amount = 0\<rparr>] \<and>
   update_debts [ReceiptItemSplit 8 1 0 2, ReceiptItemSplit 9 2 5 1] 5
     [\<lparr>group = 5, debtor = 1, creditor = 2, amount = 5\<rparr>]
   = [] \<and>
   update_debts [ReceiptItemSplit 7 1 5 2, ReceiptItemSplit 9 2 5 1, ReceiptItemSplit 8 1 0 2] 5 []
   = [\<lparr>group = 5, debtor = 1, creditor = 2, amount = 0\<rparr>] \<and>
   update_debts [ReceiptItemSplit 8 1 0 2, ReceiptItemSplit 7 1 5 2, ReceiptItemSplit 9 2 5 1] 5 []
   = []"
  by (simp add: update_debt_def filter_first_def key_def objects_create_def delete_def save_def)

end
